theory Spec2Isabelle
  imports Main "HOL-Library.Word" "HOL-Library.AList" "HOL-Library.Multiset"
begin

section \<open>The lesson and quiz relay of \<open>backend/main.py\<close>\<close>

text \<open>
  The development embeds the data-reshaping core of the two request handlers
  \<open>generate_lesson\<close> and \<open>generate_quiz\<close>: validation of the two upstream
  segment arrays, detection of the audio array, recombination of chunked audio,
  the merge by \<open>segment_id\<close>, and the formatting of quiz questions.
  Python strings are \<open>string\<close> (ASCII text), Python \<open>bytes\<close> are lists of
  8-bit words, a raised exception is the \<open>Inl\<close> branch of a sum, and a
  \<open>dict\<close> is an association list updated in place (\<open>AList.update\<close>), which
  keeps Python's insertion order.
\<close>

subsection \<open>The standard library's base64 codec\<close>

text \<open>
  \<open>base64.b64encode\<close> and \<open>base64.b64decode\<close> (called with the default
  \<open>validate=False\<close>) are library functions; they are modelled after RFC 4648 and
  CPython's \<open>binascii.a2b_base64\<close> in non-strict mode: characters outside the
  alphabet are discarded, decoding stops at a completed padding, and data characters
  left over at the end of the input raise \<open>binascii.Error\<close>.
\<close>

type_synonym byte = "8 word"

datatype b64_error = NonAsciiString | IncorrectPadding | InvalidLength

definition b64_alphabet :: string where
  "b64_alphabet = ''ABCDEFGHIJKLMNOPQRSTUVWXYZabcdefghijklmnopqrstuvwxyz0123456789+/''"

definition b64_char :: "nat \<Rightarrow> char" where
  \<comment> \<open>the digit of a 6-bit value; every call below passes a value below 64\<close>
  "b64_char n = b64_alphabet ! n"

definition b64_index :: "char \<Rightarrow> nat option" where
  "b64_index c = map_of (zip b64_alphabet [0..<64]) c"

fun b64encode :: "byte list \<Rightarrow> string" where
  "b64encode [] = []"
| "b64encode [a] =
     [b64_char (unat a div 4), b64_char (unat a mod 4 * 16), CHR ''='', CHR ''='']"
| "b64encode [a, b] =
     [b64_char (unat a div 4), b64_char (unat a mod 4 * 16 + unat b div 16),
      b64_char (unat b mod 16 * 4), CHR ''='']"
| "b64encode (a # b # c # rest) =
     [b64_char (unat a div 4), b64_char (unat a mod 4 * 16 + unat b div 16),
      b64_char (unat b mod 16 * 4 + unat c div 64), b64_char (unat c mod 64)]
     @ b64encode rest"

text \<open>
  The decoder's loop: \<open>quad_pos\<close> is the position inside the current group of four
  digits, \<open>leftchar\<close> the bits not yet written, \<open>pads\<close> the run of \<open>=\<close> seen.
\<close>

fun a2b_base64 :: "string \<Rightarrow> nat \<Rightarrow> nat \<Rightarrow> nat \<Rightarrow> byte list \<Rightarrow> b64_error + byte list" where
  "a2b_base64 [] quad_pos leftchar pads out =
     (if quad_pos = 0 then Inr out
      else if quad_pos = 1 then Inl InvalidLength
      else Inl IncorrectPadding)"
| "a2b_base64 (ch # rest) quad_pos leftchar pads out =
     (if ch = CHR ''='' then
        (if 2 \<le> quad_pos \<and> 4 \<le> quad_pos + (pads + 1) then Inr out
         else a2b_base64 rest quad_pos leftchar (if 2 \<le> quad_pos then pads + 1 else pads) out)
      else (case b64_index ch of
        None \<Rightarrow> a2b_base64 rest quad_pos leftchar pads out
      | Some v \<Rightarrow>
          (if quad_pos = 0 then a2b_base64 rest 1 v 0 out
           else if quad_pos = 1 then
             a2b_base64 rest 2 (v mod 16) 0 (out @ [of_nat (leftchar * 4 + v div 16)])
           else if quad_pos = 2 then
             a2b_base64 rest 3 (v mod 4) 0 (out @ [of_nat (leftchar * 16 + v div 4)])
           else a2b_base64 rest 0 0 0 (out @ [of_nat (leftchar * 64 + v)]))))"

definition b64decode :: "string \<Rightarrow> b64_error + byte list" where
  \<comment> \<open>a \<open>str\<close> argument is first encoded as ASCII, which raises on any other character\<close>
  "b64decode s =
     (if list_ex (\<lambda>c. 128 \<le> (of_char c :: nat)) s then Inl NonAsciiString
      else a2b_base64 s 0 0 0 [])"

subsection \<open>Combining the chunks of one audio field\<close>

text \<open>
  Lines 562 to 565 of \<open>generate_lesson\<close>: every chunk is decoded on its own, the
  bytes are appended to \<open>combined_binary\<close> in list order, and the whole is encoded
  once. A chunk that does not decode raises out of the loop.
\<close>

fun combined_binary :: "string list \<Rightarrow> byte list \<Rightarrow> b64_error + byte list" where
  "combined_binary [] acc = Inr acc"
| "combined_binary (chunk # rest) acc =
     (case b64decode chunk of
        Inl e \<Rightarrow> Inl e
      | Inr bs \<Rightarrow> combined_binary rest (acc @ bs))"

definition combine_chunks :: "string list \<Rightarrow> b64_error + string" where
  "combine_chunks chunks =
     (case combined_binary chunks [] of
        Inl e \<Rightarrow> Inl e
      | Inr bs \<Rightarrow> Inr (b64encode bs))"

subsection \<open>Segment records and the two parsed outputs\<close>

text \<open>
  A segment record holds what \<open>seg.get(...)\<close> returns for each key: \<open>None\<close>
  where the key is absent. The \<open>audio_base64\<close> value is a string, a list of chunk
  strings, absent, or a value of another type, of which the code only reads the
  truth value.
\<close>

datatype audio_field = AudioAbsent | AudioStr string | AudioChunks "string list" | AudioOther bool

record segment =
  segment_id :: "int option"
  audio_base64 :: audio_field
  narration :: "string option"
  image_url :: "string option"
  duration :: "int option"

datatype segments_value = SegmentList "segment list" | NotAList

record parsed_output =
  topic :: "string option"
  segments :: "segments_value option"

datatype error =
    SegmentsNotList nat
  | SegmentsEmpty nat
  | NoAudioFound
  | NoValidSegments
  | InternalServerError b64_error

fun status_code :: "error \<Rightarrow> nat" where
  "status_code (SegmentsNotList idx) = 500"
| "status_code (SegmentsEmpty idx) = 500"
| "status_code NoAudioFound = 500"
| "status_code NoValidSegments = 500"
| "status_code (InternalServerError e) = 500"

text \<open>Python's truth value of the audio field, as \<open>if not audio_base64\<close> reads it.\<close>

fun truthy :: "audio_field \<Rightarrow> bool" where
  "truthy AudioAbsent = False"
| "truthy (AudioStr s) = (s \<noteq> [])"
| "truthy (AudioChunks chunks) = (chunks \<noteq> [])"
| "truthy (AudioOther b) = b"

subsection \<open>Extracting and validating the segment arrays\<close>

definition get_segments :: "parsed_output \<Rightarrow> segments_value" where
  \<comment> \<open>\<open>parsed_result.get("segments", [])\<close>\<close>
  "get_segments parsed = (case segments parsed of None \<Rightarrow> SegmentList [] | Some v \<Rightarrow> v)"

fun validate_segments :: "segments_value \<Rightarrow> nat \<Rightarrow> error + segment list" where
  "validate_segments NotAList idx = Inl (SegmentsNotList idx)"
| "validate_segments (SegmentList []) idx = Inl (SegmentsEmpty idx)"
| "validate_segments (SegmentList segs) idx = Inr segs"

definition extract_segments :: "parsed_output \<Rightarrow> nat \<Rightarrow> error + segment list" where
  "extract_segments parsed idx = validate_segments (get_segments parsed) idx"

subsection \<open>Detecting the audio array\<close>

definition has_audio_base64 :: "segment list \<Rightarrow> bool" where
  "has_audio_base64 segs = list_ex (\<lambda>seg. truthy (audio_base64 seg)) (take 5 segs)"

record roles =
  audio_result_index :: nat
  content_result_index :: nat
  audio_segments :: "segment list"
  content_segments :: "segment list"

definition detect_audio_role :: "segment list \<Rightarrow> segment list \<Rightarrow> error + roles" where
  "detect_audio_role segments0 segments1 =
     (let result0_has_audio = has_audio_base64 segments0;
          result1_has_audio = has_audio_base64 segments1
      in if result0_has_audio \<and> \<not> result1_has_audio then
           Inr \<lparr>audio_result_index = 0, content_result_index = 1,
                audio_segments = segments0, content_segments = segments1\<rparr>
         else if result1_has_audio \<and> \<not> result0_has_audio then
           Inr \<lparr>audio_result_index = 1, content_result_index = 0,
                audio_segments = segments1, content_segments = segments0\<rparr>
         else if result0_has_audio \<and> result1_has_audio then
           Inr \<lparr>audio_result_index = 0, content_result_index = 1,
                audio_segments = segments0, content_segments = segments1\<rparr>
         else Inl NoAudioFound)"

subsection \<open>The two identifier maps\<close>

record audio_data =
  audio_b64 :: string
  audio_length :: nat

record content_data =
  cd_narration :: string
  cd_image_url :: "string option"
  cd_duration :: "int option"

type_synonym audio_map = "(int \<times> audio_data) list"
type_synonym content_map = "(int \<times> content_data) list"

text \<open>
  One pass of the loop over the audio segments (lines 544 to 574): the three
  \<open>continue\<close> branches leave the map as it is, a chunk that does not decode raises.
\<close>

definition map_audio_segment :: "segment \<Rightarrow> audio_map \<Rightarrow> b64_error + audio_map" where
  "map_audio_segment seg m =
     (case segment_id seg of
        None \<Rightarrow> Inr m
      | Some sid \<Rightarrow>
          if \<not> truthy (audio_base64 seg) then Inr m
          else (case audio_base64 seg of
              AudioStr s \<Rightarrow>
                Inr (AList.update sid \<lparr>audio_b64 = s, audio_length = length s\<rparr> m)
            | AudioChunks chunks \<Rightarrow>
                (case combine_chunks chunks of
                   Inl e \<Rightarrow> Inl e
                 | Inr s \<Rightarrow>
                     Inr (AList.update sid \<lparr>audio_b64 = s, audio_length = length s\<rparr> m))
            | _ \<Rightarrow> Inr m))"

fun audio_segments_map :: "segment list \<Rightarrow> audio_map \<Rightarrow> b64_error + audio_map" where
  "audio_segments_map [] m = Inr m"
| "audio_segments_map (seg # rest) m =
     (case map_audio_segment seg m of
        Inl e \<Rightarrow> Inl e
      | Inr m' \<Rightarrow> audio_segments_map rest m')"

definition map_content_segment :: "segment \<Rightarrow> content_map \<Rightarrow> content_map" where
  "map_content_segment seg m =
     (case segment_id seg of
        None \<Rightarrow> m
      | Some sid \<Rightarrow>
          AList.update sid
            \<lparr>cd_narration = (case narration seg of None \<Rightarrow> [] | Some n \<Rightarrow> n),
             cd_image_url = image_url seg,
             cd_duration = duration seg\<rparr> m)"

fun content_segments_map :: "segment list \<Rightarrow> content_map \<Rightarrow> content_map" where
  "content_segments_map [] m = m"
| "content_segments_map (seg # rest) m = content_segments_map rest (map_content_segment seg m)"

subsection \<open>Combining by identifier\<close>

datatype skip_reason = MissingAudio | MissingContent

record combined_segment =
  cs_segment_id :: int
  audioBase64 :: string
  imageUrl :: "string option"
  cs_narration :: string
  cs_duration :: "int option"

text \<open>
  The loop of lines 614 to 639 over the sorted identifiers. The second component
  collects the identifiers the loop skips, with the side its warning names.
\<close>

fun combine_loop ::
  "int list \<Rightarrow> audio_map \<Rightarrow> content_map \<Rightarrow> combined_segment list \<times> (int \<times> skip_reason) list" where
  "combine_loop [] am cm = ([], [])"
| "combine_loop (sid # ids) am cm =
     (let (combined, skipped) = combine_loop ids am cm
      in case map_of am sid of
           None \<Rightarrow> (combined, (sid, MissingAudio) # skipped)
         | Some ad \<Rightarrow>
             (case map_of cm sid of
                None \<Rightarrow> (combined, (sid, MissingContent) # skipped)
              | Some cd \<Rightarrow>
                  (\<lparr>cs_segment_id = sid, audioBase64 = audio_b64 ad,
                    imageUrl = cd_image_url cd, cs_narration = cd_narration cd,
                    cs_duration = cd_duration cd\<rparr> # combined, skipped)))"

definition merge_maps ::
  "audio_map \<Rightarrow> content_map \<Rightarrow> error + combined_segment list \<times> (int \<times> skip_reason) list" where
  "merge_maps am cm =
     (let audio_segment_ids = sort (map fst am);
          content_segment_ids = sort (map fst cm);
          all_segment_ids = remdups (audio_segment_ids @ content_segment_ids);
          (combined, skipped) = combine_loop (sort all_segment_ids) am cm;
          combined_segments = sort_key cs_segment_id combined;
          valid_segments = filter (\<lambda>seg. audioBase64 seg \<noteq> []) combined_segments
      in if valid_segments = [] then Inl NoValidSegments
         else Inr (valid_segments, skipped))"

definition merge_segments ::
  "segment list \<Rightarrow> segment list \<Rightarrow> error + combined_segment list \<times> (int \<times> skip_reason) list" where
  \<comment> \<open>steps 3 to 5; an exception of step 3 reaches the handler of line 709\<close>
  "merge_segments audio_segs content_segs =
     (case audio_segments_map audio_segs [] of
        Inl e \<Rightarrow> Inl (InternalServerError e)
      | Inr am \<Rightarrow> merge_maps am (content_segments_map content_segs []))"

subsection \<open>The request handler after parsing\<close>

record lesson =
  lesson_topic :: string
  lesson_segments :: "combined_segment list"

definition choose_topic :: "string option \<Rightarrow> string option \<Rightarrow> string \<Rightarrow> string" where
  \<comment> \<open>\<open>audio_parsed.get("topic") or content_parsed.get("topic") or request.userInput\<close>\<close>
  "choose_topic audio_topic content_topic userInput =
     (case audio_topic of
        Some t \<Rightarrow> if t \<noteq> [] then t
                  else (case content_topic of
                          Some t' \<Rightarrow> if t' \<noteq> [] then t' else userInput
                        | None \<Rightarrow> userInput)
      | None \<Rightarrow> (case content_topic of
                    Some t' \<Rightarrow> if t' \<noteq> [] then t' else userInput
                  | None \<Rightarrow> userInput))"

definition generate_lesson :: "parsed_output \<Rightarrow> parsed_output \<Rightarrow> string \<Rightarrow> error + lesson" where
  "generate_lesson parsed_result0 parsed_result1 userInput =
     (case extract_segments parsed_result0 0 of
        Inl e \<Rightarrow> Inl e
      | Inr segments0 \<Rightarrow>
     (case extract_segments parsed_result1 1 of
        Inl e \<Rightarrow> Inl e
      | Inr segments1 \<Rightarrow>
     (case detect_audio_role segments0 segments1 of
        Inl e \<Rightarrow> Inl e
      | Inr r \<Rightarrow>
     (case merge_segments (audio_segments r) (content_segments r) of
        Inl e \<Rightarrow> Inl e
      | Inr (valid_segments, skipped) \<Rightarrow>
          let audio_parsed = (if audio_result_index r = 0 then parsed_result0 else parsed_result1);
              content_parsed = (if audio_result_index r = 0 then parsed_result1 else parsed_result0)
          in Inr \<lparr>lesson_topic = choose_topic (topic audio_parsed) (topic content_parsed) userInput,
                  lesson_segments = valid_segments\<rparr>))))"

subsection \<open>Formatting the quiz\<close>

record question_data =
  question :: "string option"
  options :: "string list option"
  correct_answer :: "string option"

record quiz_question =
  qid :: nat
  q_question :: string
  q_options :: "string list"
  correctAnswer :: nat

datatype quiz_error = NoQuizArray | NoValidQuestions

fun index :: "'a list \<Rightarrow> 'a \<Rightarrow> nat option" where
  \<comment> \<open>\<open>list.index\<close>; \<open>None\<close> is its ValueError\<close>
  "index [] x = None"
| "index (y # ys) x = (if y = x then Some 0 else map_option Suc (index ys x))"

definition lower :: "string \<Rightarrow> string" where
  "lower s = map (\<lambda>c. let n = (of_char c :: nat) in
                        if 65 \<le> n \<and> n \<le> 90 then char_of (n + 32) else c) s"

definition isspace :: "char \<Rightarrow> bool" where
  "isspace c = (let n = (of_char c :: nat) in (9 \<le> n \<and> n \<le> 13) \<or> (28 \<le> n \<and> n \<le> 32))"

definition strip :: "string \<Rightarrow> string" where
  "strip s = rev (dropWhile isspace (rev (dropWhile isspace s)))"

fun find_case_insensitive :: "nat \<Rightarrow> string list \<Rightarrow> string \<Rightarrow> nat option" where
  \<comment> \<open>the fallback loop of lines 931 to 934, leaving at the first match\<close>
  "find_case_insensitive i [] x = None"
| "find_case_insensitive i (opt # opts) x =
     (if strip (lower opt) = strip (lower x) then Some i
      else find_case_insensitive (i + 1) opts x)"

definition correct_answer_index :: "string list \<Rightarrow> string \<Rightarrow> nat option" where
  \<comment> \<open>\<open>None\<close> is the value -1 the variable keeps when nothing matches\<close>
  "correct_answer_index opts correct_answer_text =
     (case index opts correct_answer_text of
        Some i \<Rightarrow> Some i
      | None \<Rightarrow> find_case_insensitive 0 opts correct_answer_text)"

definition resolve :: "question_data \<Rightarrow> nat option" where
  "resolve q =
     correct_answer_index (case options q of None \<Rightarrow> [] | Some os \<Rightarrow> os)
       (case correct_answer q of None \<Rightarrow> [] | Some a \<Rightarrow> a)"

fun formatted_questions :: "nat \<Rightarrow> question_data list \<Rightarrow> quiz_question list" where
  \<comment> \<open>\<open>for idx, question_data in enumerate(quiz_array)\<close>, started at \<open>idx\<close>\<close>
  "formatted_questions idx [] = []"
| "formatted_questions idx (q # rest) =
     (case resolve q of
        None \<Rightarrow> formatted_questions (idx + 1) rest
      | Some i \<Rightarrow>
          \<lparr>qid = idx + 1,
           q_question = (case question q of None \<Rightarrow> [] | Some t \<Rightarrow> t),
           q_options = (case options q of None \<Rightarrow> [] | Some os \<Rightarrow> os),
           correctAnswer = i\<rparr> # formatted_questions (idx + 1) rest)"

definition format_quiz :: "question_data list \<Rightarrow> quiz_error + quiz_question list" where
  "format_quiz quiz_array =
     (if quiz_array = [] then Inl NoQuizArray
      else let qs = formatted_questions 0 quiz_array
           in if qs = [] then Inl NoValidQuestions else Inr qs)"

subsection \<open>What the two mapping loops store\<close>

text \<open>
  For stating properties of the maps: \<open>audio_entry\<close> is the key and value the audio
  loop stores for one record (\<open>None\<close> where the loop skips the record),
  \<open>decode_fails\<close> says that the loop raises at the record, \<open>content_entry\<close> is
  what the content loop stores, \<open>last_entry\<close> is the value of the last pair with a
  given key, \<open>update_all\<close> stores a list of pairs one after the other, and
  \<open>segment_ids\<close> lists the identifiers present in a segment list.
\<close>

definition audio_entry :: "segment \<Rightarrow> (int \<times> audio_data) option" where
  "audio_entry seg =
     (case segment_id seg of
        None \<Rightarrow> None
      | Some sid \<Rightarrow>
          (case audio_base64 seg of
             AudioStr s \<Rightarrow>
               if s = [] then None else Some (sid, \<lparr>audio_b64 = s, audio_length = length s\<rparr>)
           | AudioChunks chunks \<Rightarrow>
               if chunks = [] then None
               else (case combine_chunks chunks of
                       Inl e \<Rightarrow> None
                     | Inr s \<Rightarrow> Some (sid, \<lparr>audio_b64 = s, audio_length = length s\<rparr>))
           | _ \<Rightarrow> None))"

definition decode_fails :: "segment \<Rightarrow> bool" where
  "decode_fails seg =
     (case segment_id seg of
        None \<Rightarrow> False
      | Some sid \<Rightarrow>
          (case audio_base64 seg of
             AudioChunks chunks \<Rightarrow> chunks \<noteq> [] \<and> isl (combine_chunks chunks)
           | _ \<Rightarrow> False))"

definition content_entry :: "segment \<Rightarrow> (int \<times> content_data) option" where
  "content_entry seg =
     (case segment_id seg of
        None \<Rightarrow> None
      | Some sid \<Rightarrow>
          Some (sid, \<lparr>cd_narration = (case narration seg of None \<Rightarrow> [] | Some n \<Rightarrow> n),
                      cd_image_url = image_url seg, cd_duration = duration seg\<rparr>))"

definition last_entry :: "('k \<times> 'v) list \<Rightarrow> 'k \<Rightarrow> 'v option" where
  "last_entry kvs k =
     (let es = filter (\<lambda>e. fst e = k) kvs
      in if es = [] then None else Some (snd (last es)))"

fun update_all :: "('k \<times> 'v) list \<Rightarrow> ('k \<times> 'v) list \<Rightarrow> ('k \<times> 'v) list" where
  "update_all [] m = m"
| "update_all ((k, v) # kvs) m = update_all kvs (AList.update k v m)"

definition segment_ids :: "segment list \<Rightarrow> int list" where
  "segment_ids segs = List.map_filter segment_id segs"

definition audio_entries :: "segment list \<Rightarrow> (int \<times> audio_data) list" where
  "audio_entries segs = List.map_filter audio_entry segs"

definition content_entries :: "segment list \<Rightarrow> (int \<times> content_data) list" where
  "content_entries segs = List.map_filter content_entry segs"

definition audio_map_ids :: "segment list \<Rightarrow> int list" where
  \<comment> \<open>the identifiers the audio loop stores an entry for\<close>
  "audio_map_ids segs = remdups (map fst (audio_entries segs))"

definition usable_audio_ids :: "segment list \<Rightarrow> int list" where
  \<comment> \<open>those whose entry, the last one stored, holds a non-empty audio string\<close>
  "usable_audio_ids segs =
     filter (\<lambda>i. case last_entry (audio_entries segs) i of
                    None \<Rightarrow> False
                  | Some ad \<Rightarrow> audio_b64 ad \<noteq> [])
       (audio_map_ids segs)"

subsection \<open>Example records\<close>

text \<open>Records of the two upstream arrays, used where a property is run on an input.\<close>

definition content_seg :: "int \<Rightarrow> segment" where
  "content_seg sid =
     \<lparr>segment_id = Some sid, audio_base64 = AudioAbsent, narration = Some ''Hello'',
      image_url = Some ''http://x/1.png'', duration = Some 5\<rparr>"

definition audio_seg :: "int \<Rightarrow> audio_field \<Rightarrow> segment" where
  "audio_seg sid a =
     \<lparr>segment_id = Some sid, audio_base64 = a, narration = None,
      image_url = None, duration = None\<rparr>"

definition quiz_bad :: question_data where
  "quiz_bad = \<lparr>question = Some ''Largest planet?'', options = Some [''Mars'', ''Venus''],
               correct_answer = Some ''Jupiter''\<rparr>"

definition quiz_good :: question_data where
  "quiz_good = \<lparr>question = Some ''Capital of Germany?'',
                options = Some [''Paris'', ''London'', ''Berlin''],
                correct_answer = Some ''berlin''\<rparr>"

section \<open>Properties of the base64 codec\<close>


















lemma join4: "a div 4 * 4 + a mod 4 = (a::nat)"
  by simp

lemma join16: "b div 16 * 16 + b mod 16 = (b::nat)"
  by simp

lemma join64: "c div 64 * 64 + c mod 64 = (c::nat)"
  by simp















section \<open>Properties of the maps and of the merge\<close>

lemma map_of_update_all: "map_of (update_all kvs m) = map_of m ++ map_of (rev kvs)"
proof (induction kvs arbitrary: m)
  case Nil
  show ?case by simp
next
  case (Cons kv kvs)
  obtain k v where kv: "kv = (k, v)" by (cases kv)
  have "map_of (update_all (kv # kvs) m) = map_of (AList.update k v m) ++ map_of (rev kvs)"
    by (simp add: kv Cons.IH)
  also have "\<dots> = map_of m ++ map_of (rev (kv # kvs))"
    by (rule ext) (simp add: kv update_conv' map_add_def split: option.splits)
  finally show ?case .
qed

lemma last_entry_map_of: "last_entry kvs k = map_of (rev kvs) k"
proof (induction kvs rule: rev_induct)
  case Nil
  show ?case by (simp add: last_entry_def)
next
  case (snoc kv kvs)
  then show ?case
    by (cases kv) (auto simp: last_entry_def Let_def split: if_splits)
qed

lemma map_audio_segment_entry:
  "map_audio_segment seg m =
     (if decode_fails seg then
        (case audio_base64 seg of
           AudioChunks chunks \<Rightarrow> (case combine_chunks chunks of Inl e \<Rightarrow> Inl e | Inr s \<Rightarrow> Inr m)
         | _ \<Rightarrow> Inr m)
      else Inr (case audio_entry seg of None \<Rightarrow> m | Some (k, v) \<Rightarrow> AList.update k v m))"
  by (auto simp: map_audio_segment_def decode_fails_def audio_entry_def
      split: option.splits audio_field.splits sum.splits)

lemma map_audio_segment_isl: "isl (map_audio_segment seg m) = decode_fails seg"
  by (auto simp: map_audio_segment_def decode_fails_def
      split: option.splits audio_field.splits sum.splits)

lemma audio_segments_map_isl:
  "isl (audio_segments_map segs m) = (\<exists>seg\<in>set segs. decode_fails seg)"
proof (induction segs arbitrary: m)
  case Nil
  show ?case by simp
next
  case (Cons seg segs)
  show ?case
  proof (cases "map_audio_segment seg m")
    case (Inl e)
    then have "decode_fails seg" using map_audio_segment_isl[of seg m] by simp
    with Inl show ?thesis by simp
  next
    case (Inr m')
    then have "\<not> decode_fails seg" using map_audio_segment_isl[of seg m] by simp
    with Inr Cons.IH[of m'] show ?thesis by simp
  qed
qed

lemma audio_segments_map_entries:
  "audio_segments_map segs m = Inr m' \<Longrightarrow> m' = update_all (List.map_filter audio_entry segs) m"
proof (induction segs arbitrary: m)
  case Nil
  then show ?case by (simp add: List.map_filter_simps)
next
  case (Cons seg segs)
  from Cons.prems obtain m1 where s: "map_audio_segment seg m = Inr m1"
    and r: "audio_segments_map segs m1 = Inr m'"
    by (auto split: sum.splits)
  from s have nf: "\<not> decode_fails seg" using map_audio_segment_isl[of seg m] by simp
  from s nf have m1: "m1 = (case audio_entry seg of None \<Rightarrow> m | Some (k, v) \<Rightarrow> AList.update k v m)"
    by (simp add: map_audio_segment_entry)
  from Cons.IH[OF r] m1 show ?case
    by (cases "audio_entry seg") (auto simp: List.map_filter_simps)
qed

lemma content_segments_map_entries:
  "content_segments_map segs m = update_all (List.map_filter content_entry segs) m"
proof (induction segs arbitrary: m)
  case Nil
  show ?case by (simp add: List.map_filter_simps)
next
  case (Cons seg segs)
  show ?case
    by (cases "segment_id seg")
       (simp_all add: Cons.IH map_content_segment_def content_entry_def List.map_filter_simps)
qed

lemma combine_loop_cong:
  "map_of am = map_of am' \<Longrightarrow> map_of cm = map_of cm' \<Longrightarrow>
   combine_loop ids am cm = combine_loop ids am' cm'"
  by (induction ids) (auto split: prod.splits option.splits)

lemma all_ids_eq:
  "sort (remdups (sort (map fst am) @ sort (map fst cm))) =
     sorted_list_of_set (dom (map_of am) \<union> dom (map_of cm))"
proof -
  have "sort (remdups (sort (map fst am) @ sort (map fst cm))) =
        sorted_list_of_set (set (sort (map fst am) @ sort (map fst cm)))"
    by (simp only: sorted_list_of_set_sort_remdups)
  also have "set (sort (map fst am) @ sort (map fst cm)) = dom (map_of am) \<union> dom (map_of cm)"
    by (simp add: dom_map_of_conv_image_fst)
  finally show ?thesis .
qed

lemma merge_maps_cong:
  assumes "map_of am = map_of am'" and "map_of cm = map_of cm'"
  shows "merge_maps am cm = merge_maps am' cm'"
  unfolding merge_maps_def Let_def all_ids_eq
  using assms combine_loop_cong[OF assms] by simp

lemma combine_loop_ids:
  "map cs_segment_id (fst (combine_loop ids am cm)) =
     filter (\<lambda>i. i \<in> dom (map_of am) \<and> i \<in> dom (map_of cm)) ids"
  by (induction ids) (auto split: prod.splits option.splits)

lemma combine_loop_audio:
  "c \<in> set (fst (combine_loop ids am cm)) \<Longrightarrow>
     \<exists>ad. map_of am (cs_segment_id c) = Some ad \<and> audioBase64 c = audio_b64 ad"
  by (induction ids) (auto split: prod.splits option.splits)

lemma combine_loop_skipped:
  "(i, r) \<in> set (snd (combine_loop ids am cm)) \<longleftrightarrow>
     i \<in> set ids \<and> ((r = MissingAudio \<and> map_of am i = None)
                   \<or> (r = MissingContent \<and> map_of am i \<noteq> None \<and> map_of cm i = None))"
  by (induction ids) (auto split: prod.splits option.splits)

lemma merge_maps_Inr:
  assumes "merge_maps am cm = Inr (out, skipped)"
  shows "out = filter (\<lambda>seg. audioBase64 seg \<noteq> [])
                 (sort_key cs_segment_id (fst (combine_loop
                    (sorted_list_of_set (dom (map_of am) \<union> dom (map_of cm))) am cm)))"
    and "skipped = snd (combine_loop (sorted_list_of_set (dom (map_of am) \<union> dom (map_of cm))) am cm)"
  using assms unfolding merge_maps_def Let_def all_ids_eq
  by (auto split: prod.splits if_splits)

lemma finite_keys: "finite (dom (map_of am) \<union> dom (map_of cm))"
  by (simp add: finite_dom_map_of)

lemma merge_maps_ids:
  assumes "merge_maps am cm = Inr (out, skipped)"
  shows "set (map cs_segment_id out) =
     {i. \<exists>ad. map_of am i = Some ad \<and> audio_b64 ad \<noteq> []} \<inter> dom (map_of cm)"
proof -
  let ?ids = "sorted_list_of_set (dom (map_of am) \<union> dom (map_of cm))"
  let ?cs = "fst (combine_loop ?ids am cm)"
  have out: "set out = {c \<in> set ?cs. audioBase64 c \<noteq> []}"
    using merge_maps_Inr(1)[OF assms] by auto
  have "set (map cs_segment_id ?cs) = {i \<in> set ?ids. i \<in> dom (map_of am) \<and> i \<in> dom (map_of cm)}"
    by (simp only: combine_loop_ids set_filter)
  then have ids: "cs_segment_id ` set ?cs = dom (map_of am) \<inter> dom (map_of cm)"
    using finite_keys[of am cm] by auto
  show ?thesis
  proof (rule set_eqI)
    fix i
    show "i \<in> set (map cs_segment_id out) \<longleftrightarrow>
          i \<in> {i. \<exists>ad. map_of am i = Some ad \<and> audio_b64 ad \<noteq> []} \<inter> dom (map_of cm)"
    proof
      assume "i \<in> set (map cs_segment_id out)"
      then obtain c where c: "c \<in> set ?cs" "audioBase64 c \<noteq> []" "cs_segment_id c = i"
        using out by auto
      from combine_loop_audio[OF c(1)] c(2,3)
      have "\<exists>ad. map_of am i = Some ad \<and> audio_b64 ad \<noteq> []" by auto
      moreover have "i \<in> dom (map_of cm)" using ids c(1,3) by blast
      ultimately show "i \<in> {i. \<exists>ad. map_of am i = Some ad \<and> audio_b64 ad \<noteq> []} \<inter> dom (map_of cm)"
        by simp
    next
      assume "i \<in> {i. \<exists>ad. map_of am i = Some ad \<and> audio_b64 ad \<noteq> []} \<inter> dom (map_of cm)"
      then obtain ad where ad: "map_of am i = Some ad" "audio_b64 ad \<noteq> []"
        and ic: "i \<in> dom (map_of cm)" by auto
      from ad(1) ic have "i \<in> cs_segment_id ` set ?cs" unfolding ids by auto
      then obtain c where c: "c \<in> set ?cs" "cs_segment_id c = i" by auto
      from combine_loop_audio[OF c(1)] c(2) ad have "audioBase64 c \<noteq> []" by auto
      with c out show "i \<in> set (map cs_segment_id out)" by force
    qed
  qed
qed

lemma merge_maps_sorted:
  assumes "merge_maps am cm = Inr (out, skipped)"
  shows "sorted_wrt (<) (map cs_segment_id out)"
proof -
  let ?ids = "sorted_list_of_set (dom (map_of am) \<union> dom (map_of cm))"
  let ?cs = "fst (combine_loop ?ids am cm)"
  have d: "distinct (map cs_segment_id ?cs)"
    by (simp only: combine_loop_ids) simp
  have s: "sorted (map cs_segment_id ?cs)"
    by (simp only: combine_loop_ids) (rule sorted_wrt_filter, simp)
  have id: "sort_key cs_segment_id ?cs = ?cs"
    using s by (rule sort_key_id_if_sorted)
  have d2: "distinct (map cs_segment_id (sort_key cs_segment_id ?cs))"
    unfolding id by (rule d)
  have s2: "sorted (map cs_segment_id (sort_key cs_segment_id ?cs))"
    by (rule sorted_sort_key)
  have out: "out = filter (\<lambda>seg. audioBase64 seg \<noteq> []) (sort_key cs_segment_id ?cs)"
    by (rule merge_maps_Inr(1)[OF assms])
  have "sorted (map cs_segment_id out)"
    unfolding out using s2 by (rule sorted_filter)
  moreover have "distinct (map cs_segment_id out)"
    unfolding out using d2 by (rule distinct_map_filter)
  ultimately show ?thesis
    by (simp add: strict_sorted_iff)
qed

lemma audio_entry_id: "audio_entry seg = Some (k, v) \<Longrightarrow> segment_id seg = Some k"
  by (auto simp: audio_entry_def split: option.splits audio_field.splits if_splits sum.splits)

lemma content_entry_id: "content_entry seg = Some (k, v) \<longleftrightarrow>
    segment_id seg = Some k \<and> v = \<lparr>cd_narration = (case narration seg of None \<Rightarrow> [] | Some n \<Rightarrow> n),
                      cd_image_url = image_url seg, cd_duration = duration seg\<rparr>"
  by (auto simp: content_entry_def split: option.splits)

lemma audio_entries_ids: "fst ` set (audio_entries segs) \<subseteq> set (segment_ids segs)"
proof (induction segs)
  case Nil
  show ?case by (simp add: audio_entries_def segment_ids_def List.map_filter_simps)
next
  case (Cons seg segs)
  show ?case
  proof (cases "audio_entry seg")
    case None
    with Cons show ?thesis
      by (cases "segment_id seg") (auto simp: audio_entries_def segment_ids_def List.map_filter_simps)
  next
    case (Some e)
    obtain k v where e: "e = (k, v)" by (cases e)
    from Some e have "segment_id seg = Some k" by (simp add: audio_entry_id)
    with Cons Some e show ?thesis
      by (auto simp: audio_entries_def segment_ids_def List.map_filter_simps)
  qed
qed

lemma content_entries_ids: "map fst (content_entries segs) = segment_ids segs"
proof (induction segs)
  case Nil
  show ?case by (simp add: content_entries_def segment_ids_def List.map_filter_simps)
next
  case (Cons seg segs)
  then show ?case
    by (cases "segment_id seg")
       (simp_all add: content_entries_def segment_ids_def List.map_filter_simps content_entry_def)
qed

lemma audio_entries_distinct:
  "distinct (segment_ids segs) \<Longrightarrow> distinct (map fst (audio_entries segs))"
proof (induction segs)
  case Nil
  show ?case by (simp add: audio_entries_def List.map_filter_simps)
next
  case (Cons seg segs)
  show ?case
  proof (cases "audio_entry seg")
    case None
    with Cons show ?thesis
      by (cases "segment_id seg") (auto simp: audio_entries_def segment_ids_def List.map_filter_simps)
  next
    case (Some e)
    obtain k v where e: "e = (k, v)" by (cases e)
    from Some e have k: "segment_id seg = Some k" by (simp add: audio_entry_id)
    with Cons.prems have "k \<notin> set (segment_ids segs)" and d: "distinct (segment_ids segs)"
      by (simp_all add: segment_ids_def List.map_filter_simps)
    then have "k \<notin> fst ` set (audio_entries segs)" using audio_entries_ids[of segs] by blast
    with Cons.IH[OF d] Some e show ?thesis
      by (simp add: audio_entries_def List.map_filter_simps)
  qed
qed

lemma map_of_rev_distinct:
  "distinct (map fst kvs) \<Longrightarrow> map_of (rev kvs) = map_of kvs"
proof -
  assume d: "distinct (map fst kvs)"
  have "map fst (rev kvs) = rev (map fst kvs)" by (simp add: rev_map)
  with d have "distinct (map fst (rev kvs))" by simp
  with d show ?thesis by (simp add: map_of_inject_set)
qed

lemma map_of_perm_distinct:
  "mset kvs' = mset kvs \<Longrightarrow> distinct (map fst kvs) \<Longrightarrow> map_of kvs' = map_of kvs"
proof -
  assume m: "mset kvs' = mset kvs" and d: "distinct (map fst kvs)"
  from m have "mset (map fst kvs') = mset (map fst kvs)" by simp
  with d have d': "distinct (map fst kvs')" by (metis mset_eq_imp_distinct_iff)
  from m have "set kvs' = set kvs" by (rule mset_eq_setD)
  with d d' show ?thesis by (simp add: map_of_inject_set)
qed

lemma mset_map_filter:
  "mset xs' = mset xs \<Longrightarrow> mset (List.map_filter f xs') = mset (List.map_filter f xs)"
  by (simp add: List.map_filter_def)

lemma audio_map_of:
  assumes "audio_segments_map segs [] = Inr am"
  shows "map_of am = map_of (rev (audio_entries segs))"
  using audio_segments_map_entries[OF assms]
  by (simp add: map_of_update_all audio_entries_def)

lemma content_map_of:
  "map_of (content_segments_map segs []) = map_of (rev (content_entries segs))"
  by (simp add: content_segments_map_entries map_of_update_all content_entries_def)

lemma segment_ids_perm:
  assumes "mset segs' = mset segs" and "distinct (segment_ids segs)"
  shows "distinct (segment_ids segs')"
proof -
  have "mset (segment_ids segs') = mset (segment_ids segs)"
    unfolding segment_ids_def using assms(1) by (rule mset_map_filter)
  with assms(2) show ?thesis by (metis mset_eq_imp_distinct_iff)
qed

lemma audio_map_isl_perm:
  assumes "mset segs' = mset segs"
  shows "isl (audio_segments_map segs' m') = isl (audio_segments_map segs m)"
  using mset_eq_setD[OF assms] by (simp add: audio_segments_map_isl)

lemma audio_map_perm:
  assumes p: "mset segs' = mset segs" and d: "distinct (segment_ids segs)"
    and am: "audio_segments_map segs [] = Inr am"
  shows "\<exists>am'. audio_segments_map segs' [] = Inr am' \<and> map_of am' = map_of am"
proof -
  from am have "\<not> isl (audio_segments_map segs [])" by simp
  then have "\<not> isl (audio_segments_map segs' [])"
    using audio_map_isl_perm[OF p, of "[]" "[]"] by simp
  then obtain am' where am': "audio_segments_map segs' [] = Inr am'"
    by (cases "audio_segments_map segs' []") auto
  have d': "distinct (segment_ids segs')" using p d by (rule segment_ids_perm)
  have pe: "mset (audio_entries segs') = mset (audio_entries segs)"
    unfolding audio_entries_def using p by (rule mset_map_filter)
  have "map_of am' = map_of (audio_entries segs')"
    using audio_map_of[OF am'] map_of_rev_distinct[OF audio_entries_distinct[OF d']] by simp
  also have "\<dots> = map_of (audio_entries segs)"
    using pe audio_entries_distinct[OF d] by (rule map_of_perm_distinct)
  also have "\<dots> = map_of am"
    using audio_map_of[OF am] map_of_rev_distinct[OF audio_entries_distinct[OF d]] by simp
  finally show ?thesis using am' by blast
qed

lemma content_map_perm:
  assumes p: "mset segs' = mset segs" and d: "distinct (segment_ids segs)"
  shows "map_of (content_segments_map segs' []) = map_of (content_segments_map segs [])"
proof -
  have d': "distinct (segment_ids segs')" using p d by (rule segment_ids_perm)
  have dk: "distinct (map fst (content_entries segs))" using d by (simp add: content_entries_ids)
  have dk': "distinct (map fst (content_entries segs'))" using d' by (simp add: content_entries_ids)
  have pe: "mset (content_entries segs') = mset (content_entries segs)"
    unfolding content_entries_def using p by (rule mset_map_filter)
  have "map_of (content_segments_map segs' []) = map_of (content_entries segs')"
    using content_map_of[of segs'] map_of_rev_distinct[OF dk'] by simp
  also have "\<dots> = map_of (content_entries segs)"
    using pe dk by (rule map_of_perm_distinct)
  also have "\<dots> = map_of (content_segments_map segs [])"
    using content_map_of[of segs] map_of_rev_distinct[OF dk] by simp
  finally show ?thesis .
qed

lemma merge_segments_perm_imp:
  assumes pa: "mset as' = mset as" and pc: "mset cs' = mset cs"
    and da: "distinct (segment_ids as)" and dc: "distinct (segment_ids cs)"
    and r: "merge_segments as cs = Inr r"
  shows "merge_segments as' cs' = Inr r"
proof -
  from r obtain am where am: "audio_segments_map as [] = Inr am"
    and m: "merge_maps am (content_segments_map cs []) = Inr r"
    by (auto simp: merge_segments_def split: sum.splits)
  from audio_map_perm[OF pa da am] obtain am' where
    am': "audio_segments_map as' [] = Inr am'" and e: "map_of am' = map_of am" by blast
  have "merge_maps am' (content_segments_map cs' []) = merge_maps am (content_segments_map cs [])"
    using e content_map_perm[OF pc dc] by (rule merge_maps_cong)
  with am' m show ?thesis by (simp add: merge_segments_def)
qed

lemma merge_segments_sorted:
  assumes "merge_segments as cs = Inr r"
  shows "sorted_wrt (<) (map cs_segment_id (fst r))"
proof -
  obtain out skipped where r: "r = (out, skipped)" by (cases r)
  from assms obtain am where "merge_maps am (content_segments_map cs []) = Inr (out, skipped)"
    by (auto simp: merge_segments_def r split: sum.splits)
  then show ?thesis unfolding r by (simp add: merge_maps_sorted)
qed

lemma last_entry_snoc:
  "last_entry (kvs @ [e]) k = (if fst e = k then Some (snd e) else last_entry kvs k)"
  by (simp add: last_entry_def Let_def)

lemma map_filter_snoc:
  "List.map_filter f (xs @ [x]) =
     List.map_filter f xs @ (case f x of None \<Rightarrow> [] | Some e \<Rightarrow> [e])"
  by (cases "f x") (simp_all add: List.map_filter_def)

lemma last_entry_map_filter:
  "last_entry (List.map_filter f xs) k =
     (let kept = filter (\<lambda>x. \<exists>v. f x = Some (k, v)) xs
      in if kept = [] then None else map_option snd (f (last kept)))"
proof (induction xs rule: rev_induct)
  case Nil
  show ?case by (simp add: last_entry_def List.map_filter_simps)
next
  case (snoc x xs)
  show ?case
  proof (cases "f x")
    case None
    with snoc show ?thesis by (simp add: map_filter_snoc Let_def)
  next
    case (Some e)
    obtain k' v where e: "e = (k', v)" by (cases e)
    with Some snoc show ?thesis
      by (simp add: map_filter_snoc last_entry_snoc Let_def)
  qed
qed

lemma content_entry_key:
  "(\<exists>v. content_entry seg = Some (k, v)) \<longleftrightarrow> segment_id seg = Some k"
  by (auto simp: content_entry_def split: option.splits)

lemma audio_entry_key:
  "(\<exists>v. audio_entry seg = Some (k, v)) \<longleftrightarrow> segment_id seg = Some k \<and> audio_entry seg \<noteq> None"
proof
  assume "\<exists>v. audio_entry seg = Some (k, v)"
  then show "segment_id seg = Some k \<and> audio_entry seg \<noteq> None"
    using audio_entry_id by auto
next
  assume h: "segment_id seg = Some k \<and> audio_entry seg \<noteq> None"
  then obtain k' v where e: "audio_entry seg = Some (k', v)" by auto
  with h audio_entry_id[OF e] show "\<exists>v. audio_entry seg = Some (k, v)" by simp
qed

lemma dom_audio_map:
  assumes "audio_segments_map segs [] = Inr am"
  shows "dom (map_of am) = set (audio_map_ids segs)"
  by (simp add: audio_map_of[OF assms] dom_map_of_conv_image_fst audio_map_ids_def)

lemma dom_content_map:
  "dom (map_of (content_segments_map segs [])) = set (segment_ids segs)"
proof -
  have "dom (map_of (content_segments_map segs [])) = set (map fst (content_entries segs))"
    by (simp add: content_map_of dom_map_of_conv_image_fst)
  then show ?thesis by (simp only: content_entries_ids)
qed

lemma usable_audio_ids_set:
  assumes "audio_segments_map segs [] = Inr am"
  shows "set (usable_audio_ids segs) = {i. \<exists>ad. map_of am i = Some ad \<and> audio_b64 ad \<noteq> []}"
proof -
  have l: "last_entry (audio_entries segs) i = map_of am i" for i
    by (simp add: audio_map_of[OF assms] last_entry_map_of)
  have d: "set (audio_map_ids segs) = dom (map_of am)"
    by (simp add: dom_audio_map[OF assms])
  have "set (usable_audio_ids segs) =
          {i \<in> dom (map_of am). case map_of am i of None \<Rightarrow> False | Some ad \<Rightarrow> audio_b64 ad \<noteq> []}"
    by (simp add: usable_audio_ids_def l d)
  also have "\<dots> = {i. \<exists>ad. map_of am i = Some ad \<and> audio_b64 ad \<noteq> []}"
    by (auto split: option.splits)
  finally show ?thesis .
qed

lemma merge_maps_unfold:
  "merge_maps am cm =
     (let ids = sorted_list_of_set (dom (map_of am) \<union> dom (map_of cm));
          valid = filter (\<lambda>seg. audioBase64 seg \<noteq> [])
                    (sort_key cs_segment_id (fst (combine_loop ids am cm)))
      in if valid = [] then Inl NoValidSegments
         else Inr (valid, snd (combine_loop ids am cm)))"
  unfolding merge_maps_def Let_def all_ids_eq
  by (simp split: prod.splits)

lemma in_set_nonempty: "x \<in> set xs \<Longrightarrow> xs \<noteq> []"
  by (cases xs) simp_all

lemma merge_maps_succeeds:
  assumes "map_of am i = Some ad" and "audio_b64 ad \<noteq> []" and "i \<in> dom (map_of cm)"
  shows "\<exists>out skipped. merge_maps am cm = Inr (out, skipped)"
proof -
  let ?ids = "sorted_list_of_set (dom (map_of am) \<union> dom (map_of cm))"
  let ?cs = "fst (combine_loop ?ids am cm)"
  have "i \<in> set ?ids" using assms(1,3) finite_keys[of am cm] by auto
  then have "i \<in> set (map cs_segment_id ?cs)"
    using assms(1,3) by (simp only: combine_loop_ids set_filter) auto
  then obtain c where c: "c \<in> set ?cs" "cs_segment_id c = i" by auto
  from combine_loop_audio[OF c(1)] c(2) assms(1,2) have "audioBase64 c \<noteq> []" by auto
  with c(1) have "c \<in> set (filter (\<lambda>seg. audioBase64 seg \<noteq> []) (sort_key cs_segment_id ?cs))"
    by simp
  then have "filter (\<lambda>seg. audioBase64 seg \<noteq> []) (sort_key cs_segment_id ?cs) \<noteq> []"
    by (rule in_set_nonempty)
  then show ?thesis
    by (simp add: merge_maps_unfold Let_def)
qed

lemma merge_maps_out_audio:
  assumes "merge_maps am cm = Inr (out, skipped)" and "c \<in> set out"
  shows "\<exists>ad. map_of am (cs_segment_id c) = Some ad \<and> audioBase64 c = audio_b64 ad"
proof -
  let ?cs = "fst (combine_loop (sorted_list_of_set (dom (map_of am) \<union> dom (map_of cm))) am cm)"
  from merge_maps_Inr(1)[OF assms(1)] assms(2) have "c \<in> set ?cs" by simp
  then show ?thesis by (rule combine_loop_audio)
qed

lemma audio_map_lookup:
  assumes "audio_segments_map segs [] = Inr am"
  shows "map_of am i =
     (let kept = filter (\<lambda>seg. segment_id seg = Some i \<and> audio_entry seg \<noteq> None) segs
      in if kept = [] then None else map_option snd (audio_entry (last kept)))"
proof -
  have "map_of am i = last_entry (audio_entries segs) i"
    by (simp add: audio_map_of[OF assms] last_entry_map_of)
  then show ?thesis
    by (simp only: audio_entries_def last_entry_map_filter audio_entry_key)
qed

lemma audio_entry_str:
  "segment_id seg = Some sid \<Longrightarrow> audio_base64 seg = AudioStr s \<Longrightarrow>
   audio_entry seg = (if s = [] then None else Some (sid, \<lparr>audio_b64 = s, audio_length = length s\<rparr>))"
  by (simp add: audio_entry_def)

section \<open>The claims of the specification\<close>



text \<open>
  Claim C1, evaluated on the code. The first audio record carries the chunks
  \<open>QQ==\<close> and \<open>Qg\<close>; the second chunk has incorrect padding. The second record
  and both content records are well formed. The exception of the decoder leaves the
  loop over the audio records and the whole request ends in the handler of line 709
  with status 500: the valid segment 2 is not returned.
\<close>

theorem invalid_chunk_fails_request:
  "generate_lesson
     \<lparr>topic = None, segments = Some (SegmentList
        [audio_seg 1 (AudioChunks [''QQ=='', ''Qg'']), audio_seg 2 (AudioStr ''QUJD'')])\<rparr>
     \<lparr>topic = None, segments = Some (SegmentList [content_seg 1, content_seg 2])\<rparr> ''Maths''
   = Inl (InternalServerError IncorrectPadding)"
  by code_simp

text \<open>
  Claim C5, as stated, fails where the \<open>segments\<close> key is absent: the default of
  \<open>get\<close> is the empty list, so the slot is reported as empty, not as not-a-list.
\<close>

theorem absent_segments_counterexample:
  "extract_segments \<lparr>topic = Some ''Maths'', segments = None\<rparr> 0 = Inl (SegmentsEmpty 0)
   \<and> extract_segments \<lparr>topic = Some ''Maths'', segments = None\<rparr> 0 \<noteq> Inl (SegmentsNotList 0)"
  by (simp add: extract_segments_def get_segments_def)

text \<open>
  Claim C5, amended. A \<open>segments\<close> value that is present and not a list fails with
  SegmentsNotList for that slot; an absent \<open>segments\<close> key fails with SegmentsEmpty
  for that slot.
\<close>

theorem segments_not_list:
  "(segments parsed = Some NotAList \<longrightarrow> extract_segments parsed idx = Inl (SegmentsNotList idx))
   \<and> (segments parsed = None \<longrightarrow> extract_segments parsed idx = Inl (SegmentsEmpty idx))"
  by (simp add: extract_segments_def get_segments_def)

theorem segments_not_list_witness:
  "segments \<lparr>topic = None, segments = Some NotAList\<rparr> = Some NotAList
   \<and> extract_segments \<lparr>topic = None, segments = Some NotAList\<rparr> 1 = Inl (SegmentsNotList 1)
   \<and> segments \<lparr>topic = None, segments = None\<rparr> = None
   \<and> extract_segments \<lparr>topic = None, segments = None\<rparr> 1 = Inl (SegmentsEmpty 1)"
  using segments_not_list[of "\<lparr>topic = None, segments = Some NotAList\<rparr>" 1]
        segments_not_list[of "\<lparr>topic = None, segments = None\<rparr>" 1]
  by simp

text \<open>
  Claim C6. A parsed output whose \<open>segments\<close> value is the empty list fails with
  SegmentsEmpty for its slot, a status 500 error, and the request fails whichever
  slot holds it: no empty lesson is returned.
\<close>

theorem empty_segments_rejected:
  assumes "segments parsed = Some (SegmentList [])"
  shows "extract_segments parsed idx = Inl (SegmentsEmpty idx)
       \<and> status_code (SegmentsEmpty idx) = 500
       \<and> generate_lesson parsed other userInput = Inl (SegmentsEmpty 0)
       \<and> (\<exists>e. generate_lesson other parsed userInput = Inl e \<and> status_code e = 500)"
proof -
  have e: "extract_segments parsed idx = Inl (SegmentsEmpty idx)" for idx
    using assms by (simp add: extract_segments_def get_segments_def)
  have g0: "generate_lesson parsed other userInput = Inl (SegmentsEmpty 0)"
    by (simp add: generate_lesson_def e)
  have "\<exists>e. generate_lesson other parsed userInput = Inl e"
    by (cases "extract_segments other 0") (simp_all add: generate_lesson_def e)
  then obtain err where g1: "generate_lesson other parsed userInput = Inl err" ..
  have "status_code err = 500" by (cases err) simp_all
  with e g0 g1 show ?thesis by simp
qed

theorem empty_segments_rejected_witness:
  "segments \<lparr>topic = None, segments = Some (SegmentList [])\<rparr> = Some (SegmentList [])
   \<and> extract_segments \<lparr>topic = None, segments = Some (SegmentList [])\<rparr> 0 = Inl (SegmentsEmpty 0)"
  using empty_segments_rejected[of "\<lparr>topic = None, segments = Some (SegmentList [])\<rparr>" 0]
  by simp

text \<open>
  Claim C7. When exactly one of two segment lists has audio among its first five
  records, detection succeeds in both argument orders, and in both orders the audio
  list of the result is that very list (\<open>A\<close> if \<open>A\<close> has audio, else \<open>B\<close>) and
  the content list is the other one; only the two result indices follow the
  argument position.
\<close>

theorem role_detection_symmetry:
  assumes "has_audio_base64 A \<noteq> has_audio_base64 B"
  shows "\<exists>r r'. detect_audio_role A B = Inr r \<and> detect_audio_role B A = Inr r'
           \<and> audio_segments r = (if has_audio_base64 A then A else B)
           \<and> content_segments r = (if has_audio_base64 A then B else A)
           \<and> audio_segments r' = audio_segments r \<and> content_segments r' = content_segments r
           \<and> audio_result_index r = (if has_audio_base64 A then 0 else 1)
           \<and> content_result_index r = (if has_audio_base64 A then 1 else 0)
           \<and> audio_result_index r' = (if has_audio_base64 A then 1 else 0)
           \<and> content_result_index r' = (if has_audio_base64 A then 0 else 1)
           \<and> has_audio_base64 (audio_segments r) \<and> \<not> has_audio_base64 (content_segments r)"
  using assms by (cases "has_audio_base64 A") (simp_all add: detect_audio_role_def)

theorem role_detection_symmetry_witness:
  "has_audio_base64 [audio_seg 1 (AudioStr ''QQ=='')] \<noteq> has_audio_base64 [content_seg 1]
   \<and> (\<exists>r r'. detect_audio_role [audio_seg 1 (AudioStr ''QQ=='')] [content_seg 1] = Inr r
         \<and> detect_audio_role [content_seg 1] [audio_seg 1 (AudioStr ''QQ=='')] = Inr r'
         \<and> audio_segments r = [audio_seg 1 (AudioStr ''QQ=='')]
         \<and> audio_segments r' = [audio_seg 1 (AudioStr ''QQ=='')]
         \<and> content_segments r = [content_seg 1] \<and> content_segments r' = [content_seg 1]
         \<and> audio_result_index r = 0 \<and> audio_result_index r' = 1)"
proof -
  have a: "has_audio_base64 [audio_seg 1 (AudioStr ''QQ=='')]"
    by (simp add: has_audio_base64_def audio_seg_def)
  have b: "\<not> has_audio_base64 [content_seg 1]"
    by (simp add: has_audio_base64_def content_seg_def)
  from a b have h: "has_audio_base64 [audio_seg 1 (AudioStr ''QQ=='')] \<noteq> has_audio_base64 [content_seg 1]"
    by simp
  from role_detection_symmetry[OF h] a h show ?thesis by auto
qed

text \<open>
  Claim C8, as stated, fails: a single-string audio field that starts with a data-URI
  prefix reaches the output with the prefix still in place.
\<close>

theorem data_uri_counterexample:
  "merge_segments [audio_seg 1 (AudioStr ''data:audio/mpeg;base64,QQ=='')] [content_seg 1] =
     Inr ([\<lparr>cs_segment_id = 1, audioBase64 = ''data:audio/mpeg;base64,QQ=='',
             imageUrl = Some ''http://x/1.png'', cs_narration = ''Hello'', cs_duration = Some 5\<rparr>], [])"
  by code_simp

text \<open>
  Claim C8, amended. A non-empty single-string audio field is neither decoded nor
  stripped. The mapping loop stores the string as it is, with its length. For any
  audio and content lists: if such a record is the last record of its identifier
  that the loop keeps, the identifier is present in the content list and no chunk
  list fails to decode, then the merge succeeds and its output has a segment of that
  identifier with the same string as \<open>audioBase64\<close>; and every segment of a
  successful merge whose audio comes from a single-string record carries exactly
  that string.
\<close>

theorem single_string_audio_verbatim:
  "(segment_id seg = Some sid \<and> audio_base64 seg = AudioStr s \<and> s \<noteq> [] \<longrightarrow>
      map_audio_segment seg m =
        Inr (AList.update sid \<lparr>audio_b64 = s, audio_length = length s\<rparr> m))
   \<and> (seg \<in> set as \<and> segment_id seg = Some sid \<and> audio_base64 seg = AudioStr s \<and> s \<noteq> []
        \<and> last (filter (\<lambda>x. segment_id x = Some sid \<and> audio_entry x \<noteq> None) as) = seg
        \<and> sid \<in> set (segment_ids cs) \<and> \<not> (\<exists>x\<in>set as. decode_fails x) \<longrightarrow>
      (\<exists>out skipped c. merge_segments as cs = Inr (out, skipped) \<and> c \<in> set out
          \<and> cs_segment_id c = sid \<and> audioBase64 c = s))
   \<and> (merge_segments as cs = Inr (out, skipped) \<and> c \<in> set out
        \<and> audio_base64 (last (filter (\<lambda>x. segment_id x = Some (cs_segment_id c)
                                         \<and> audio_entry x \<noteq> None) as)) = AudioStr s \<longrightarrow>
      audioBase64 c = s)"
proof (intro conjI impI)
  assume "segment_id seg = Some sid \<and> audio_base64 seg = AudioStr s \<and> s \<noteq> []"
  then show "map_audio_segment seg m =
        Inr (AList.update sid \<lparr>audio_b64 = s, audio_length = length s\<rparr> m)"
    by (simp add: map_audio_segment_def)
next
  let ?kept = "filter (\<lambda>x. segment_id x = Some sid \<and> audio_entry x \<noteq> None) as"
  let ?cm = "content_segments_map cs []"
  assume h: "seg \<in> set as \<and> segment_id seg = Some sid \<and> audio_base64 seg = AudioStr s \<and> s \<noteq> []
        \<and> last ?kept = seg
        \<and> sid \<in> set (segment_ids cs) \<and> \<not> (\<exists>x\<in>set as. decode_fails x)"
  then have e: "audio_entry seg = Some (sid, \<lparr>audio_b64 = s, audio_length = length s\<rparr>)"
    by (simp add: audio_entry_str)
  with h have "seg \<in> set ?kept" by simp
  then have ne: "?kept \<noteq> []" by (rule in_set_nonempty)
  from h have "\<not> isl (audio_segments_map as [])" by (simp add: audio_segments_map_isl)
  then obtain am where am: "audio_segments_map as [] = Inr am"
    by (cases "audio_segments_map as []") auto
  have l: "map_of am sid = Some \<lparr>audio_b64 = s, audio_length = length s\<rparr>"
    using audio_map_lookup[OF am, of sid] ne h e by (simp add: Let_def)
  from h have d: "sid \<in> dom (map_of ?cm)" by (simp only: dom_content_map)
  from l h have "\<exists>out skipped. merge_maps am ?cm = Inr (out, skipped)"
    using d by (intro merge_maps_succeeds[where ad = "\<lparr>audio_b64 = s, audio_length = length s\<rparr>"]) simp_all
  then obtain out' skipped' where m: "merge_maps am ?cm = Inr (out', skipped')" by blast
  from merge_maps_ids[OF m] l h d have "sid \<in> set (map cs_segment_id out')" by auto
  then obtain c' where c': "c' \<in> set out'" "cs_segment_id c' = sid" by auto
  from merge_maps_out_audio[OF m c'(1)] c'(2) l have "audioBase64 c' = s" by auto
  moreover from am m have "merge_segments as cs = Inr (out', skipped')"
    by (simp add: merge_segments_def)
  ultimately show "\<exists>out skipped c. merge_segments as cs = Inr (out, skipped) \<and> c \<in> set out
          \<and> cs_segment_id c = sid \<and> audioBase64 c = s"
    using c' by blast
next
  let ?kept = "filter (\<lambda>x. segment_id x = Some (cs_segment_id c) \<and> audio_entry x \<noteq> None) as"
  assume h: "merge_segments as cs = Inr (out, skipped) \<and> c \<in> set out
        \<and> audio_base64 (last ?kept) = AudioStr s"
  then obtain am where am: "audio_segments_map as [] = Inr am"
    and m: "merge_maps am (content_segments_map cs []) = Inr (out, skipped)"
    by (auto simp: merge_segments_def split: sum.splits)
  from h have c: "c \<in> set out" by simp
  from merge_maps_out_audio[OF m c] obtain ad where
    ad: "map_of am (cs_segment_id c) = Some ad" "audioBase64 c = audio_b64 ad" by blast
  from ad(1) audio_map_lookup[OF am, of "cs_segment_id c"]
  have ne: "?kept \<noteq> []" and l: "map_option snd (audio_entry (last ?kept)) = Some ad"
    by (auto simp: Let_def split: if_splits)
  from ne have "last ?kept \<in> set ?kept" by (rule last_in_set)
  then have "segment_id (last ?kept) = Some (cs_segment_id c)" by simp
  with h have "audio_entry (last ?kept) =
      (if s = [] then None else Some (cs_segment_id c, \<lparr>audio_b64 = s, audio_length = length s\<rparr>))"
    by (simp add: audio_entry_str)
  with l have "ad = \<lparr>audio_b64 = s, audio_length = length s\<rparr>"
    by (auto split: if_splits)
  with ad(2) show "audioBase64 c = s" by simp
qed

theorem single_string_audio_verbatim_witness:
  "merge_segments
      [audio_seg 1 (AudioStr ''data:audio/mpeg;base64,QQ==''), audio_seg 2 (AudioStr ''Qg=='')]
      [content_seg 1, content_seg 2] =
     Inr ([\<lparr>cs_segment_id = 1, audioBase64 = ''data:audio/mpeg;base64,QQ=='',
             imageUrl = Some ''http://x/1.png'', cs_narration = ''Hello'', cs_duration = Some 5\<rparr>,
           \<lparr>cs_segment_id = 2, audioBase64 = ''Qg=='',
             imageUrl = Some ''http://x/1.png'', cs_narration = ''Hello'', cs_duration = Some 5\<rparr>], [])
   \<and> audio_base64 (last (filter (\<lambda>x. segment_id x = Some 1 \<and> audio_entry x \<noteq> None)
        [audio_seg 1 (AudioStr ''data:audio/mpeg;base64,QQ==''), audio_seg 2 (AudioStr ''Qg=='')]))
       = AudioStr ''data:audio/mpeg;base64,QQ==''
   \<and> audioBase64 \<lparr>cs_segment_id = 1, audioBase64 = ''data:audio/mpeg;base64,QQ=='',
             imageUrl = Some ''http://x/1.png'', cs_narration = ''Hello'', cs_duration = Some 5\<rparr>
       = ''data:audio/mpeg;base64,QQ==''
   \<and> map_audio_segment (audio_seg 1 (AudioStr ''data:audio/mpeg;base64,QQ=='')) [] =
       Inr (AList.update 1 \<lparr>audio_b64 = ''data:audio/mpeg;base64,QQ=='',
                              audio_length = length ''data:audio/mpeg;base64,QQ==''\<rparr> [])
   \<and> (\<exists>out skipped c. merge_segments
          [audio_seg 1 (AudioStr ''data:audio/mpeg;base64,QQ==''), audio_seg 2 (AudioStr ''Qg=='')]
          [content_seg 1, content_seg 2] = Inr (out, skipped) \<and> c \<in> set out
          \<and> cs_segment_id c = 1 \<and> audioBase64 c = ''data:audio/mpeg;base64,QQ=='')"
proof -
  let ?a1 = "audio_seg 1 (AudioStr ''data:audio/mpeg;base64,QQ=='')"
  let ?as = "[?a1, audio_seg 2 (AudioStr ''Qg=='')]"
  let ?cs = "[content_seg 1, content_seg 2]"
  let ?c1 = "\<lparr>cs_segment_id = 1, audioBase64 = ''data:audio/mpeg;base64,QQ=='',
             imageUrl = Some ''http://x/1.png'', cs_narration = ''Hello'', cs_duration = Some 5\<rparr>"
  let ?c2 = "\<lparr>cs_segment_id = 2, audioBase64 = ''Qg=='',
             imageUrl = Some ''http://x/1.png'', cs_narration = ''Hello'', cs_duration = Some 5\<rparr>"
  have m: "merge_segments ?as ?cs = Inr ([?c1, ?c2], [])"
    by code_simp
  have k: "filter (\<lambda>x. segment_id x = Some 1 \<and> audio_entry x \<noteq> None) ?as = [?a1]"
    by (simp add: audio_seg_def audio_entry_def)
  have l: "audio_base64 (last (filter (\<lambda>x. segment_id x = Some 1 \<and> audio_entry x \<noteq> None) ?as))
       = AudioStr ''data:audio/mpeg;base64,QQ==''"
    unfolding k by (simp add: audio_seg_def)
  have l1: "audio_base64 (last (filter (\<lambda>x. segment_id x = Some (cs_segment_id ?c1)
       \<and> audio_entry x \<noteq> None) ?as)) = AudioStr ''data:audio/mpeg;base64,QQ==''"
    using l by simp
  have s1: "segment_id ?a1 = Some 1" and s2: "audio_base64 ?a1 = AudioStr ''data:audio/mpeg;base64,QQ==''"
    and s3: "''data:audio/mpeg;base64,QQ=='' \<noteq> []"
    by (simp_all add: audio_seg_def)
  have s4: "last (filter (\<lambda>x. segment_id x = Some 1 \<and> audio_entry x \<noteq> None) ?as) = ?a1"
    unfolding k by simp
  have s5: "1 \<in> set (segment_ids ?cs)"
    by (simp add: segment_ids_def List.map_filter_simps content_seg_def)
  have s6: "\<not> (\<exists>x\<in>set ?as. decode_fails x)"
    by (simp add: decode_fails_def audio_seg_def)
  have s0: "?a1 \<in> set ?as" by simp
  note t = single_string_audio_verbatim[of ?a1 1 "''data:audio/mpeg;base64,QQ==''" "[]"
      ?as ?cs "[?c1, ?c2]" "[]" ?c1]
  have c3: "audioBase64 ?c1 = ''data:audio/mpeg;base64,QQ==''"
    using t[THEN conjunct2, THEN conjunct2] m l1 by simp
  have c1: "map_audio_segment ?a1 [] =
       Inr (AList.update 1 \<lparr>audio_b64 = ''data:audio/mpeg;base64,QQ=='',
                              audio_length = length ''data:audio/mpeg;base64,QQ==''\<rparr> [])"
    using t[THEN conjunct1] s1 s2 s3 by blast
  have c2: "\<exists>out skipped c. merge_segments ?as ?cs = Inr (out, skipped) \<and> c \<in> set out
          \<and> cs_segment_id c = 1 \<and> audioBase64 c = ''data:audio/mpeg;base64,QQ==''"
    using t[THEN conjunct2, THEN conjunct1] s0 s1 s2 s3 s4 s5 s6 by blast
  from m l c3 c1 c2 show ?thesis by (intro conjI)
qed

text \<open>
  Claim C9, as stated, fails: when the first of two quiz entries cannot be resolved,
  the one emitted question has id 2, not 1.
\<close>

theorem quiz_ids_counterexample:
  "format_quiz [quiz_bad, quiz_good] =
     Inr [\<lparr>qid = 2, q_question = ''Capital of Germany?'',
           q_options = [''Paris'', ''London'', ''Berlin''], correctAnswer = 2\<rparr>]
   \<and> map qid (formatted_questions 0 [quiz_bad, quiz_good]) \<noteq> [1]"
  by code_simp

lemma formatted_questions_ids:
  "map qid (formatted_questions k qs) =
     map (\<lambda>i. k + i + 1) (filter (\<lambda>i. resolve (qs ! i) \<noteq> None) [0..<length qs])"
proof (induction qs arbitrary: k)
  case Nil
  show ?case by simp
next
  case (Cons q qs)
  have upt: "[0..<length (q # qs)] = 0 # map Suc [0..<length qs]"
    by (simp add: upt_conv_Cons map_Suc_upt del: upt_Suc)
  show ?case
    unfolding upt
    by (cases "resolve q") (simp_all add: Cons.IH filter_map comp_def del: upt_Suc)
qed

text \<open>
  Claim C9, amended. The id of an emitted question is its position in the original
  quiz array plus one: the emitted ids are the numbers \<open>i + 1\<close> of the entries \<open>i\<close>
  that resolve, in increasing order, with a gap wherever an entry was dropped.
\<close>

theorem quiz_ids_original_position:
  "map qid (formatted_questions 0 quiz_array) =
     map Suc (filter (\<lambda>i. resolve (quiz_array ! i) \<noteq> None) [0..<length quiz_array])
   \<and> sorted_wrt (<) (map qid (formatted_questions 0 quiz_array))"
proof -
  have e: "map qid (formatted_questions 0 quiz_array) =
     map Suc (filter (\<lambda>i. resolve (quiz_array ! i) \<noteq> None) [0..<length quiz_array])"
    using formatted_questions_ids[of 0 quiz_array] by simp
  have "sorted_wrt (<) (filter (\<lambda>i. resolve (quiz_array ! i) \<noteq> None) [0..<length quiz_array])"
    by (rule sorted_wrt_filter) simp
  then show ?thesis
    unfolding e by (simp add: sorted_wrt_map)
qed

text \<open>
  Claim C3, as stated, fails: two audio records with the same \<open>segment_id\<close> give a
  different output when they are swapped, since the later record overwrites the
  earlier one.
\<close>

theorem duplicate_id_order_counterexample:
  "merge_segments [audio_seg 1 (AudioStr ''QQ==''), audio_seg 1 (AudioStr ''Qg=='')] [content_seg 1] =
     Inr ([\<lparr>cs_segment_id = 1, audioBase64 = ''Qg=='', imageUrl = Some ''http://x/1.png'',
             cs_narration = ''Hello'', cs_duration = Some 5\<rparr>], [])
   \<and> merge_segments [audio_seg 1 (AudioStr ''Qg==''), audio_seg 1 (AudioStr ''QQ=='')] [content_seg 1] =
     Inr ([\<lparr>cs_segment_id = 1, audioBase64 = ''QQ=='', imageUrl = Some ''http://x/1.png'',
             cs_narration = ''Hello'', cs_duration = Some 5\<rparr>], [])"
  by code_simp

text \<open>
  Claim C3, amended. The merged output is always in strictly ascending order of
  \<open>segment_id\<close>. When no \<open>segment_id\<close> occurs twice within the audio list nor
  twice within the content list, permuting the records of either list leaves the
  result of the merge unchanged: the same combined segments in the same order, or a
  failure in both cases.
\<close>

theorem merge_order_independent:
  "(merge_segments as cs = Inr r \<longrightarrow> sorted_wrt (<) (map cs_segment_id (fst r)))
   \<and> (mset as' = mset as \<and> mset cs' = mset cs
        \<and> distinct (segment_ids as) \<and> distinct (segment_ids cs)
      \<longrightarrow> (merge_segments as' cs' = Inr r \<longleftrightarrow> merge_segments as cs = Inr r))"
proof (intro conjI impI)
  assume "merge_segments as cs = Inr r"
  then show "sorted_wrt (<) (map cs_segment_id (fst r))" by (rule merge_segments_sorted)
next
  assume h: "mset as' = mset as \<and> mset cs' = mset cs
        \<and> distinct (segment_ids as) \<and> distinct (segment_ids cs)"
  then have pa: "mset as' = mset as" and pc: "mset cs' = mset cs"
    and da: "distinct (segment_ids as)" and dc: "distinct (segment_ids cs)" by simp_all
  have da': "distinct (segment_ids as')" using pa da by (rule segment_ids_perm)
  have dc': "distinct (segment_ids cs')" using pc dc by (rule segment_ids_perm)
  show "merge_segments as' cs' = Inr r \<longleftrightarrow> merge_segments as cs = Inr r"
  proof
    assume "merge_segments as' cs' = Inr r"
    with pa[symmetric] pc[symmetric] da' dc' show "merge_segments as cs = Inr r"
      by (rule merge_segments_perm_imp)
  next
    assume "merge_segments as cs = Inr r"
    with pa pc da dc show "merge_segments as' cs' = Inr r"
      by (rule merge_segments_perm_imp)
  qed
qed

theorem merge_order_independent_witness:
  "mset [audio_seg 2 (AudioStr ''Qg==''), audio_seg 1 (AudioStr ''QQ=='')] =
     mset [audio_seg 1 (AudioStr ''QQ==''), audio_seg 2 (AudioStr ''Qg=='')]
   \<and> mset [content_seg 1, content_seg 2] = mset [content_seg 2, content_seg 1]
   \<and> distinct (segment_ids [audio_seg 1 (AudioStr ''QQ==''), audio_seg 2 (AudioStr ''Qg=='')])
   \<and> distinct (segment_ids [content_seg 2, content_seg 1])
   \<and> merge_segments [audio_seg 1 (AudioStr ''QQ==''), audio_seg 2 (AudioStr ''Qg=='')]
        [content_seg 2, content_seg 1] =
      Inr ([\<lparr>cs_segment_id = 1, audioBase64 = ''QQ=='', imageUrl = Some ''http://x/1.png'',
             cs_narration = ''Hello'', cs_duration = Some 5\<rparr>,
            \<lparr>cs_segment_id = 2, audioBase64 = ''Qg=='', imageUrl = Some ''http://x/1.png'',
             cs_narration = ''Hello'', cs_duration = Some 5\<rparr>], [])
   \<and> merge_segments [audio_seg 2 (AudioStr ''Qg==''), audio_seg 1 (AudioStr ''QQ=='')]
        [content_seg 1, content_seg 2] =
      Inr ([\<lparr>cs_segment_id = 1, audioBase64 = ''QQ=='', imageUrl = Some ''http://x/1.png'',
             cs_narration = ''Hello'', cs_duration = Some 5\<rparr>,
            \<lparr>cs_segment_id = 2, audioBase64 = ''Qg=='', imageUrl = Some ''http://x/1.png'',
             cs_narration = ''Hello'', cs_duration = Some 5\<rparr>], [])"
proof -
  have pa: "mset [audio_seg 2 (AudioStr ''Qg==''), audio_seg 1 (AudioStr ''QQ=='')] =
     mset [audio_seg 1 (AudioStr ''QQ==''), audio_seg 2 (AudioStr ''Qg=='')]"
    by (simp add: add_mset_commute)
  have pc: "mset [content_seg 1, content_seg 2] = mset [content_seg 2, content_seg 1]"
    by (simp add: add_mset_commute)
  have da: "distinct (segment_ids [audio_seg 1 (AudioStr ''QQ==''), audio_seg 2 (AudioStr ''Qg=='')])"
    by (simp add: segment_ids_def List.map_filter_simps audio_seg_def)
  have dc: "distinct (segment_ids [content_seg 2, content_seg 1])"
    by (simp add: segment_ids_def List.map_filter_simps content_seg_def)
  have m: "merge_segments [audio_seg 1 (AudioStr ''QQ==''), audio_seg 2 (AudioStr ''Qg=='')]
        [content_seg 2, content_seg 1] =
      Inr ([\<lparr>cs_segment_id = 1, audioBase64 = ''QQ=='', imageUrl = Some ''http://x/1.png'',
             cs_narration = ''Hello'', cs_duration = Some 5\<rparr>,
            \<lparr>cs_segment_id = 2, audioBase64 = ''Qg=='', imageUrl = Some ''http://x/1.png'',
             cs_narration = ''Hello'', cs_duration = Some 5\<rparr>], [])"
    by code_simp
  from merge_order_independent[of "[audio_seg 1 (AudioStr ''QQ==''), audio_seg 2 (AudioStr ''Qg=='')]"
      "[content_seg 2, content_seg 1]" _
      "[audio_seg 2 (AudioStr ''Qg==''), audio_seg 1 (AudioStr ''QQ=='')]"
      "[content_seg 1, content_seg 2]"] pa pc da dc m
  show ?thesis by blast
qed

text \<open>
  Claim C4, as stated, fails: identifier 2 is present in the audio list and in the
  content list, but its audio record has an empty audio string, so the loop skips
  the record and the output holds identifier 1 only.
\<close>

theorem empty_audio_id_counterexample:
  "merge_segments [audio_seg 1 (AudioStr ''QQ==''), audio_seg 2 (AudioStr [])]
        [content_seg 1, content_seg 2] =
     Inr ([\<lparr>cs_segment_id = 1, audioBase64 = ''QQ=='', imageUrl = Some ''http://x/1.png'',
             cs_narration = ''Hello'', cs_duration = Some 5\<rparr>], [(2, MissingAudio)])
   \<and> set (segment_ids [audio_seg 1 (AudioStr ''QQ==''), audio_seg 2 (AudioStr [])])
       \<inter> set (segment_ids [content_seg 1, content_seg 2]) = {1, 2}"
proof
  show "merge_segments [audio_seg 1 (AudioStr ''QQ==''), audio_seg 2 (AudioStr [])]
        [content_seg 1, content_seg 2] =
     Inr ([\<lparr>cs_segment_id = 1, audioBase64 = ''QQ=='', imageUrl = Some ''http://x/1.png'',
             cs_narration = ''Hello'', cs_duration = Some 5\<rparr>], [(2, MissingAudio)])"
    by code_simp
  show "set (segment_ids [audio_seg 1 (AudioStr ''QQ==''), audio_seg 2 (AudioStr [])])
       \<inter> set (segment_ids [content_seg 1, content_seg 2]) = {1, 2}"
    by (simp add: segment_ids_def List.map_filter_simps audio_seg_def content_seg_def)
qed

text \<open>
  Claim C4, amended. When the merge succeeds, the identifiers of the output are
  exactly the identifiers that the audio loop stored with a non-empty audio string
  and that are present in the content list. An identifier of the content list
  without an audio entry is reported as skipped for missing audio; an identifier
  with an audio entry and absent from the content list is reported as skipped for
  missing content.
\<close>

theorem merged_ids_intersection:
  assumes "merge_segments as cs = Inr (out, skipped)"
  shows "set (map cs_segment_id out) = set (usable_audio_ids as) \<inter> set (segment_ids cs)
       \<and> ((i, MissingAudio) \<in> set skipped \<longleftrightarrow>
            i \<in> set (segment_ids cs) \<and> i \<notin> set (audio_map_ids as))
       \<and> ((i, MissingContent) \<in> set skipped \<longleftrightarrow>
            i \<in> set (audio_map_ids as) \<and> i \<notin> set (segment_ids cs))"
proof -
  let ?cm = "content_segments_map cs []"
  from assms obtain am where am: "audio_segments_map as [] = Inr am"
    and m: "merge_maps am ?cm = Inr (out, skipped)"
    by (auto simp: merge_segments_def split: sum.splits)
  have da: "dom (map_of am) = set (audio_map_ids as)" by (rule dom_audio_map[OF am])
  have dc: "dom (map_of ?cm) = set (segment_ids cs)" by (rule dom_content_map)
  have ids: "set (map cs_segment_id out) = set (usable_audio_ids as) \<inter> set (segment_ids cs)"
    using merge_maps_ids[OF m] by (simp only: usable_audio_ids_set[OF am] dc)
  have sk: "skipped = snd (combine_loop (sorted_list_of_set (dom (map_of am) \<union> dom (map_of ?cm))) am ?cm)"
    by (rule merge_maps_Inr(2)[OF m])
  have fin: "finite (dom (map_of am) \<union> dom (map_of ?cm))" by (rule finite_keys)
  have ma: "(i, MissingAudio) \<in> set skipped \<longleftrightarrow> i \<in> dom (map_of ?cm) \<and> i \<notin> dom (map_of am)"
    unfolding sk combine_loop_skipped using fin by auto
  have mc: "(i, MissingContent) \<in> set skipped \<longleftrightarrow> i \<in> dom (map_of am) \<and> i \<notin> dom (map_of ?cm)"
    unfolding sk combine_loop_skipped using fin by auto
  from ids ma mc show ?thesis by (simp only: da dc)
qed

theorem merged_ids_intersection_witness:
  "merge_segments [audio_seg 1 (AudioStr ''QQ==''), audio_seg 2 (AudioStr [])]
        [content_seg 1, content_seg 2] =
     Inr ([\<lparr>cs_segment_id = 1, audioBase64 = ''QQ=='', imageUrl = Some ''http://x/1.png'',
             cs_narration = ''Hello'', cs_duration = Some 5\<rparr>], [(2, MissingAudio)])
   \<and> set (map cs_segment_id [\<lparr>cs_segment_id = 1, audioBase64 = ''QQ=='', imageUrl = Some ''http://x/1.png'',
             cs_narration = ''Hello'', cs_duration = Some 5\<rparr>]) =
       set (usable_audio_ids [audio_seg 1 (AudioStr ''QQ==''), audio_seg 2 (AudioStr [])])
       \<inter> set (segment_ids [content_seg 1, content_seg 2])"
proof -
  have m: "merge_segments [audio_seg 1 (AudioStr ''QQ==''), audio_seg 2 (AudioStr [])]
        [content_seg 1, content_seg 2] =
     Inr ([\<lparr>cs_segment_id = 1, audioBase64 = ''QQ=='', imageUrl = Some ''http://x/1.png'',
             cs_narration = ''Hello'', cs_duration = Some 5\<rparr>], [(2, MissingAudio)])"
    by code_simp
  from merged_ids_intersection[OF m] m show ?thesis by blast
qed

text \<open>
  Claim C10, as stated, fails for the audio map: when the last record with an
  identifier has an empty audio field the loop skips it, and the map keeps the
  audio of the earlier record.
\<close>

theorem skipped_duplicate_counterexample:
  "audio_segments_map [audio_seg 1 (AudioStr ''QQ==''), audio_seg 1 (AudioStr [])] [] =
     Inr [(1, \<lparr>audio_b64 = ''QQ=='', audio_length = 4\<rparr>)]
   \<and> audio_base64 (last [audio_seg 1 (AudioStr ''QQ==''), audio_seg 1 (AudioStr [])]) = AudioStr []"
  by code_simp

text \<open>
  Claim C10, amended. The content map holds, for an identifier, the fields of the
  last record of the list with that identifier. The audio map holds the audio of
  the last record with that identifier that the loop does not skip. Duplicate
  identifiers never raise: building the audio map fails exactly when the chunks of
  some record do not decode, and building the content map cannot fail.
\<close>

theorem last_record_wins:
  "(map_of (content_segments_map cs []) i =
      (let same = filter (\<lambda>seg. segment_id seg = Some i) cs
       in if same = [] then None else map_option snd (content_entry (last same))))
   \<and> (audio_segments_map as [] = Inr am \<longrightarrow>
       map_of am i =
        (let kept = filter (\<lambda>seg. segment_id seg = Some i \<and> audio_entry seg \<noteq> None) as
         in if kept = [] then None else map_option snd (audio_entry (last kept))))
   \<and> (isl (audio_segments_map as []) \<longleftrightarrow> (\<exists>seg\<in>set as. decode_fails seg))"
proof (intro conjI impI)
  have "map_of (content_segments_map cs []) i = last_entry (content_entries cs) i"
    by (simp add: content_map_of last_entry_map_of)
  then show "map_of (content_segments_map cs []) i =
      (let same = filter (\<lambda>seg. segment_id seg = Some i) cs
       in if same = [] then None else map_option snd (content_entry (last same)))"
    by (simp only: content_entries_def last_entry_map_filter content_entry_key)
next
  assume "audio_segments_map as [] = Inr am"
  then have "map_of am i = last_entry (audio_entries as) i"
    by (simp add: audio_map_of last_entry_map_of)
  then show "map_of am i =
        (let kept = filter (\<lambda>seg. segment_id seg = Some i \<and> audio_entry seg \<noteq> None) as
         in if kept = [] then None else map_option snd (audio_entry (last kept)))"
    by (simp only: audio_entries_def last_entry_map_filter audio_entry_key)
next
  show "isl (audio_segments_map as []) \<longleftrightarrow> (\<exists>seg\<in>set as. decode_fails seg)"
    by (rule audio_segments_map_isl)
qed

theorem last_record_wins_witness:
  "audio_segments_map [audio_seg 1 (AudioStr ''QQ==''), audio_seg 1 (AudioStr ''Qg=='')] [] =
     Inr [(1, \<lparr>audio_b64 = ''Qg=='', audio_length = 4\<rparr>)]
   \<and> map_of [(1::int, \<lparr>audio_b64 = ''Qg=='', audio_length = 4\<rparr>)] 1 =
        (let kept = filter (\<lambda>seg. segment_id seg = Some 1 \<and> audio_entry seg \<noteq> None)
                      [audio_seg 1 (AudioStr ''QQ==''), audio_seg 1 (AudioStr ''Qg=='')]
         in if kept = [] then None else map_option snd (audio_entry (last kept)))"
proof -
  have m: "audio_segments_map [audio_seg 1 (AudioStr ''QQ==''), audio_seg 1 (AudioStr ''Qg=='')] [] =
     Inr [(1, \<lparr>audio_b64 = ''Qg=='', audio_length = 4\<rparr>)]"
    by code_simp
  note t = last_record_wins[of "[]" 1 "[audio_seg 1 (AudioStr ''QQ==''), audio_seg 1 (AudioStr ''Qg=='')]"
      "[(1, \<lparr>audio_b64 = ''Qg=='', audio_length = 4\<rparr>)]"]
  from t[THEN conjunct2, THEN conjunct1, THEN mp, OF m] m
  show ?thesis by (intro conjI)
qed

end
